theory Spec2Isabelle
  imports Complex_Main "HOL-Library.Multiset"
begin

section \<open>FrameIt: the image routes of the server (server/src/routes/images.js)\<close>

text \<open>
  The routes work on two MongoDB collections, \<open>Image\<close> and \<open>Like\<close>
  (server/src/models). A collection is modelled as the list of its documents in insertion
  order, a query as a function on that list, a route handler as a function from the
  request and the database to the response and the database it leaves behind.
  Integer-valued JavaScript numbers (\<open>likesCount\<close>, timestamps, page numbers) are
  modelled as \<open>int\<close>: below \<open>2^53\<close> the arithmetic of the handlers is exact.
\<close>

subsection \<open>Documents\<close>

text \<open>An ObjectId is determined by its 24-digit hexadecimal string, which \<open>toString\<close> returns.\<close>

datatype objectid = ObjectId string

fun toString :: "objectid \<Rightarrow> string" where
  "toString (ObjectId h) = h"

text \<open>models/Image.js; \<open>likesCount\<close> defaults to 0, \<open>createdAt\<close> to the current time.\<close>

record image =
  image_id :: objectid
  filename :: string
  originalname :: string
  filepath :: string
  uploadedBy :: objectid
  description :: string
  isPublic :: bool
  likesCount :: int
  createdAt :: int

text \<open>models/Like.js.\<close>

record like =
  like_id :: objectid
  userId :: objectid
  imageId :: objectid
  like_createdAt :: int

record db =
  db_images :: "image list"
  db_likes :: "like list"

definition empty_db :: db where
  "empty_db = \<lparr>db_images = [], db_likes = []\<rparr>"

text \<open>The HTTP status of a failed request: 400, 403, 404, 500.\<close>

datatype error = BadRequest | Forbidden | NotFound | Internal

subsection \<open>Queries\<close>

text \<open>\<open>Model.find(filter)\<close> without a sort: the matching documents in natural order.\<close>

definition find_docs :: "('a \<Rightarrow> bool) \<Rightarrow> 'a list \<Rightarrow> 'a list" where
  "find_docs P xs = filter P xs"

text \<open>\<open>Model.findOne\<close> and \<open>Model.findById\<close>: the first matching document, if any.\<close>

definition findOne :: "('a \<Rightarrow> bool) \<Rightarrow> 'a list \<Rightarrow> 'a option" where
  "findOne P xs = find P xs"

definition findById :: "objectid \<Rightarrow> image list \<Rightarrow> image option" where
  "findById i xs = findOne (\<lambda>img. image_id img = i) xs"

text \<open>\<open>Model.countDocuments(filter)\<close>.\<close>

definition countDocuments :: "('a \<Rightarrow> bool) \<Rightarrow> 'a list \<Rightarrow> nat" where
  "countDocuments P xs = length (filter P xs)"

text \<open>\<open>Model.deleteOne\<close> removes the first matching document, \<open>Model.deleteMany\<close> all of them.\<close>

fun deleteOne :: "('a \<Rightarrow> bool) \<Rightarrow> 'a list \<Rightarrow> 'a list" where
  "deleteOne P [] = []"
| "deleteOne P (x # xs) = (if P x then xs else x # deleteOne P xs)"

definition deleteMany :: "('a \<Rightarrow> bool) \<Rightarrow> 'a list \<Rightarrow> 'a list" where
  "deleteMany P xs = filter (\<lambda>x. \<not> P x) xs"

text \<open>\<open>updateOne\<close>: the first matching document is replaced by its update.\<close>

fun updateOne :: "('a \<Rightarrow> bool) \<Rightarrow> ('a \<Rightarrow> 'a) \<Rightarrow> 'a list \<Rightarrow> 'a list" where
  "updateOne P f [] = []"
| "updateOne P f (x # xs) = (if P x then f x # xs else x # updateOne P f xs)"

text \<open>
  \<open>image.save()\<close> on a document that was read from the collection and whose
  \<open>likesCount\<close> was assigned: the stored document with that \<open>_id\<close> gets the new count.
\<close>

definition save_likesCount :: "image \<Rightarrow> image list \<Rightarrow> image list" where
  "save_likesCount img xs =
     updateOne (\<lambda>x. image_id x = image_id img) (\<lambda>x. x\<lparr>likesCount := likesCount img\<rparr>) xs"

text \<open>
  \<open>doc.save()\<close> on a new document inserts it at the end of the collection. The unique
  indexes of the collection reject a duplicate key, and the handler's \<open>catch\<close> turns
  that into status 500. \<open>Image\<close> is unique on \<open>_id\<close> and \<open>filename\<close>, \<open>Like\<close> on
  \<open>_id\<close> and on the pair \<open>(userId, imageId)\<close>.
\<close>

definition insert_image :: "image \<Rightarrow> image list \<Rightarrow> error + image list" where
  "insert_image img xs =
     (if list_ex (\<lambda>x. image_id x = image_id img \<or> filename x = filename img) xs
      then Inl Internal else Inr (xs @ [img]))"

definition insert_like :: "like \<Rightarrow> like list \<Rightarrow> error + like list" where
  "insert_like l xs =
     (if list_ex (\<lambda>x. like_id x = like_id l \<or> (userId x = userId l \<and> imageId x = imageId l)) xs
      then Inl Internal else Inr (xs @ [l]))"

subsection \<open>POST /upload\<close>

text \<open>
  The handler for a request that carries a file, after multer has stored it. \<open>descr\<close>
  is the description as the validator has trimmed it, rejected when longer than 500
  characters; \<open>pub\<close> is the flag computed from \<open>isPublic\<close>. The new document takes the
  uploader from the request and the default \<open>likesCount\<close> of 0. The \<open>_id\<close> that the
  driver generates and the clock are inputs.
\<close>

definition upload :: "objectid \<Rightarrow> objectid \<Rightarrow> string \<Rightarrow> string \<Rightarrow> string \<Rightarrow> bool \<Rightarrow> int \<Rightarrow> db
    \<Rightarrow> (error + image) \<times> db" where
  "upload u new_id fname oname descr pub now d =
     (if length descr > 500 then (Inl BadRequest, d)
      else
        let img = \<lparr>image_id = new_id, filename = fname, originalname = oname,
                   filepath = ''/uploads/'' @ fname, uploadedBy = u, description = descr,
                   isPublic = pub, likesCount = 0, createdAt = now\<rparr>
        in case insert_image img (db_images d) of
             Inl e \<Rightarrow> (Inl e, d)
           | Inr imgs \<Rightarrow> (Inr img, d\<lparr>db_images := imgs\<rparr>))"

subsection \<open>POST /:imageId/like\<close>

record like_response =
  resp_isLiked :: bool
  resp_likesCount :: int

text \<open>
  \<open>u\<close> is \<open>req.user._id\<close>, \<open>i\<close> the image id of the path; \<open>new_id\<close> and \<open>now\<close>
  are the \<open>_id\<close> and \<open>createdAt\<close> that \<open>new Like\<close> gives the document. The driver
  generates a fresh \<open>_id\<close>; should it collide with a stored one, \<open>like.save()\<close> throws
  before the count is touched and the handler answers 500.
\<close>

definition toggle_like :: "objectid \<Rightarrow> objectid \<Rightarrow> objectid \<Rightarrow> int \<Rightarrow> db
    \<Rightarrow> (error + like_response) \<times> db" where
  "toggle_like u i new_id now d =
     (case findById i (db_images d) of
        None \<Rightarrow> (Inl NotFound, d)
      | Some img \<Rightarrow>
          (case findOne (\<lambda>l. userId l = u \<and> imageId l = i) (db_likes d) of
             Some existingLike \<Rightarrow>
               let likes' = deleteOne (\<lambda>l. like_id l = like_id existingLike) (db_likes d);
                   img' = img\<lparr>likesCount := max 0 (likesCount img - 1)\<rparr>
               in (Inr \<lparr>resp_isLiked = False, resp_likesCount = likesCount img'\<rparr>,
                   \<lparr>db_images = save_likesCount img' (db_images d), db_likes = likes'\<rparr>)
           | None \<Rightarrow>
               (case insert_like \<lparr>like_id = new_id, userId = u, imageId = i,
                                  like_createdAt = now\<rparr> (db_likes d) of
                  Inl e \<Rightarrow> (Inl e, d)
                | Inr likes' \<Rightarrow>
                    let img' = img\<lparr>likesCount := likesCount img + 1\<rparr>
                    in (Inr \<lparr>resp_isLiked = True, resp_likesCount = likesCount img'\<rparr>,
                        \<lparr>db_images = save_likesCount img' (db_images d), db_likes = likes'\<rparr>))))"

text \<open>
  The same user toggling the same image several times in a row; each call has its own
  fresh id and clock value. The responses are returned in order.
\<close>

fun toggle_seq :: "objectid \<Rightarrow> objectid \<Rightarrow> (objectid \<times> int) list \<Rightarrow> db
    \<Rightarrow> (error + like_response) list \<times> db" where
  "toggle_seq u i [] d = ([], d)"
| "toggle_seq u i ((new_id, now) # es) d =
     (let (r, d') = toggle_like u i new_id now d;
          (rs, d'') = toggle_seq u i es d'
      in (r # rs, d''))"

subsection \<open>DELETE /:imageId\<close>

text \<open>The removal of the stored file is outside the database and not modelled.\<close>

definition delete_image :: "objectid \<Rightarrow> objectid \<Rightarrow> db \<Rightarrow> (error + unit) \<times> db" where
  "delete_image u i d =
     (case findById i (db_images d) of
        None \<Rightarrow> (Inl NotFound, d)
      | Some img \<Rightarrow>
          if toString (uploadedBy img) \<noteq> toString u then (Inl Forbidden, d)
          else (Inr (),
                \<lparr>db_images = deleteOne (\<lambda>x. image_id x = i) (db_images d),
                 db_likes = deleteMany (\<lambda>l. imageId l = i) (db_likes d)\<rparr>))"

subsection \<open>Sorting, paging and JavaScript containers\<close>

text \<open>
  \<open>Array.prototype.sort(cmp)\<close> is stable: an element goes in front of the first element
  that the comparator does not put before it. The same function models the cursor's
  \<open>sort({createdAt: -1})\<close>, with the natural order breaking ties.
\<close>

fun insort_cmp :: "('a \<Rightarrow> 'a \<Rightarrow> int) \<Rightarrow> 'a \<Rightarrow> 'a list \<Rightarrow> 'a list" where
  "insort_cmp cmp x [] = [x]"
| "insort_cmp cmp x (y # ys) = (if cmp x y \<le> 0 then x # y # ys else y # insort_cmp cmp x ys)"

definition sort_cmp :: "('a \<Rightarrow> 'a \<Rightarrow> int) \<Rightarrow> 'a list \<Rightarrow> 'a list" where
  "sort_cmp cmp xs = foldr (insort_cmp cmp) xs []"

text \<open>
  \<open>cursor.skip(s).limit(n)\<close>: the server rejects a negative skip (the handler answers
  500), a limit of 0 means no limit, a negative limit counts as its absolute value.
\<close>

definition skip_limit :: "int \<Rightarrow> int \<Rightarrow> 'a list \<Rightarrow> error + 'a list" where
  "skip_limit s n xs =
     (if s < 0 then Inl Internal
      else Inr (if n = 0 then drop (nat s) xs else take (nat \<bar>n\<bar>) (drop (nat s) xs)))"

text \<open>\<open>Array.prototype.slice(start, end)\<close>: a negative index counts from the end.\<close>

definition slice :: "'a list \<Rightarrow> int \<Rightarrow> int \<Rightarrow> 'a list" where
  "slice xs start fin =
     (let n = int (length xs);
          k = (if start < 0 then max (n + start) 0 else min start n);
          e = (if fin < 0 then max (n + fin) 0 else min fin n)
      in take (nat (e - k)) (drop (nat k) xs))"

text \<open>
  \<open>Math.ceil(total / limit)\<close>. Division by a limit of 0 gives \<open>Infinity\<close> or \<open>NaN\<close>,
  modelled as \<open>None\<close>.
\<close>

definition ceil_div :: "nat \<Rightarrow> int \<Rightarrow> int option" where
  "ceil_div n limit = (if limit = 0 then None else Some (- ((- int n) div limit)))"

text \<open>
  A JavaScript \<open>Map\<close> keeps its keys in the order of their first insertion; \<open>set\<close> on a
  key that is present replaces the value in place. \<open>new Map(entries)\<close> sets the entries
  in order, \<open>values()\<close> lists the values in key order.
\<close>

fun map_set :: "'k \<Rightarrow> 'v \<Rightarrow> ('k \<times> 'v) list \<Rightarrow> ('k \<times> 'v) list" where
  "map_set k v [] = [(k, v)]"
| "map_set k v ((k', v') # m) = (if k' = k then (k, v) # m else (k', v') # map_set k v m)"

definition new_Map :: "('k \<times> 'v) list \<Rightarrow> ('k \<times> 'v) list" where
  "new_Map entries = foldl (\<lambda>m (k, v). map_set k v m) [] entries"

definition map_values :: "('k \<times> 'v) list \<Rightarrow> 'v list" where
  "map_values m = map snd m"

text \<open>
  The values the handlers compare: \<open>Query.distinct('imageId')\<close> yields ObjectId objects,
  \<open>toString()\<close> yields string primitives. \<open>Array.prototype.includes\<close> compares with
  SameValueZero, under which an object is never equal to a string.
\<close>

datatype jsval = JObjectId objectid | JString string

fun same_value_zero_string :: "jsval \<Rightarrow> string \<Rightarrow> bool" where
  "same_value_zero_string (JString t) s = (t = s)"
| "same_value_zero_string (JObjectId _) s = False"

definition array_includes :: "jsval list \<Rightarrow> string \<Rightarrow> bool" where
  "array_includes xs s = list_ex (\<lambda>x. same_value_zero_string x s) xs"

text \<open>\<open>Like.find({userId: u}).distinct('imageId')\<close>: each liked image id once.\<close>

definition distinct_imageId :: "objectid \<Rightarrow> like list \<Rightarrow> objectid list" where
  "distinct_imageId u ls = remdups (map imageId (find_docs (\<lambda>l. userId l = u) ls))"

subsection \<open>The list routes\<close>

text \<open>An image document spread into the response together with \<open>isLiked\<close>.\<close>

record image_with_like_status =
  doc :: image
  isLiked :: bool

record list_response =
  images :: "image_with_like_status list"
  total :: nat
  page :: int
  pages :: "int option"

text \<open>Newest first: \<open>(a, b) => new Date(b.createdAt) - new Date(a.createdAt)\<close>.\<close>

definition by_createdAt_desc :: "image \<Rightarrow> image \<Rightarrow> int" where
  "by_createdAt_desc a b = createdAt b - createdAt a"

definition by_like_createdAt_desc :: "like \<Rightarrow> like \<Rightarrow> int" where
  "by_like_createdAt_desc a b = like_createdAt b - like_createdAt a"

text \<open>GET /user; \<open>pg\<close> and \<open>limit\<close> are \<open>parseInt(page)\<close> and \<open>parseInt(limit)\<close>.\<close>

definition get_user_images :: "objectid \<Rightarrow> int \<Rightarrow> int \<Rightarrow> db \<Rightarrow> error + list_response" where
  "get_user_images u pg limit d =
     (let skip = (pg - 1) * limit
      in case skip_limit skip limit
                (sort_cmp by_createdAt_desc (find_docs (\<lambda>img. uploadedBy img = u) (db_images d))) of
           Inl e \<Rightarrow> Inl e
         | Inr imgs \<Rightarrow>
             let n = countDocuments (\<lambda>img. uploadedBy img = u) (db_images d);
                 likedImageIds = map JObjectId (distinct_imageId u (db_likes d));
                 imagesWithLikeStatus =
                   map (\<lambda>img. \<lparr>doc = img,
                                isLiked = array_includes likedImageIds (toString (image_id img))\<rparr>) imgs
             in Inr \<lparr>images = imagesWithLikeStatus, total = n, page = pg,
                     pages = ceil_div n limit\<rparr>)"

text \<open>
  GET /liked. \<open>imageMap\<close> is a plain object keyed by the id strings; a like whose image
  is not found is filtered out.
\<close>

definition get_liked :: "objectid \<Rightarrow> int \<Rightarrow> int \<Rightarrow> db \<Rightarrow> error + list_response" where
  "get_liked u pg limit d =
     (let skip = (pg - 1) * limit
      in case skip_limit skip limit
                (sort_cmp by_like_createdAt_desc (find_docs (\<lambda>l. userId l = u) (db_likes d))) of
           Inl e \<Rightarrow> Inl e
         | Inr likes \<Rightarrow>
             let imageIds = map imageId likes;
                 imgs = find_docs (\<lambda>img. image_id img \<in> set imageIds) (db_images d);
                 imageMap = fold (\<lambda>img m. m(toString (image_id img) \<mapsto> img)) imgs Map.empty;
                 orderedImages = List.map_filter (\<lambda>i. imageMap (toString i)) imageIds;
                 n = countDocuments (\<lambda>l. userId l = u) (db_likes d);
                 imagesWithLikeStatus = map (\<lambda>img. \<lparr>doc = img, isLiked = True\<rparr>) orderedImages
             in Inr \<lparr>images = imagesWithLikeStatus, total = n, page = pg,
                     pages = ceil_div n limit\<rparr>)"

text \<open>GET /collection: the list before paging, then the handler.\<close>

definition uniqueImages :: "objectid \<Rightarrow> db \<Rightarrow> image list" where
  "uniqueImages u d =
     (let userUploads = find_docs (\<lambda>img. uploadedBy img = u) (db_images d);
          likedImages = distinct_imageId u (db_likes d);
          likedImageDocs = find_docs (\<lambda>img. image_id img \<in> set likedImages) (db_images d);
          allImages = userUploads @ likedImageDocs
      in sort_cmp by_createdAt_desc
           (map_values (new_Map (map (\<lambda>img. (toString (image_id img), img)) allImages))))"

definition get_collection :: "objectid \<Rightarrow> int \<Rightarrow> int \<Rightarrow> db \<Rightarrow> list_response" where
  "get_collection u pg limit d =
     (let skip = (pg - 1) * limit;
          likedImages = distinct_imageId u (db_likes d);
          paginatedImages = slice (uniqueImages u d) skip (skip + limit);
          imagesWithLikeStatus =
            map (\<lambda>img. \<lparr>doc = img,
                         isLiked = list_ex (\<lambda>i. toString i = toString (image_id img)) likedImages\<rparr>)
              paginatedImages
      in \<lparr>images = imagesWithLikeStatus, total = length (uniqueImages u d), page = pg,
          pages = ceil_div (length (uniqueImages u d)) limit\<rparr>)"

subsection \<open>GET /stats\<close>

text \<open>\<open>images.reduce((sum, img) => sum + (img.likesCount || 0), 0)\<close>; the count is a number.\<close>

definition stats :: "objectid \<Rightarrow> db \<Rightarrow> int" where
  "stats u d =
     foldl (\<lambda>sum img. sum + (if likesCount img = 0 then 0 else likesCount img)) 0
       (find_docs (\<lambda>img. uploadedBy img = u) (db_images d))"

subsection \<open>Reachable states\<close>

text \<open>The states the three mutating routes produce from the empty database.\<close>

inductive reachable :: "db \<Rightarrow> bool" where
  r_init: "reachable empty_db"
| r_upload: "reachable d \<Longrightarrow> reachable (snd (upload u new_id fname oname descr pub now d))"
| r_toggle: "reachable d \<Longrightarrow> reachable (snd (toggle_like u i new_id now d))"
| r_delete: "reachable d \<Longrightarrow> reachable (snd (delete_image u i d))"

subsection \<open>Store invariant\<close>

text \<open>
  What the unique indexes and the handlers maintain: image ids are unique, no count is
  negative, every like references a stored image, and a user likes an image at most once.
\<close>

definition db_inv :: "db \<Rightarrow> bool" where
  "db_inv d \<longleftrightarrow>
     distinct (map image_id (db_images d)) \<and>
     (\<forall>img\<in>set (db_images d). 0 \<le> likesCount img) \<and>
     (\<forall>l\<in>set (db_likes d). imageId l \<in> image_id ` set (db_images d)) \<and>
     distinct (map (\<lambda>l. (userId l, imageId l)) (db_likes d))"

subsection \<open>Example states\<close>

text \<open>User A uploads image X; then user B likes it.\<close>

definition userA :: objectid where "userA = ObjectId ''65a1f0c2e4b0a1b2c3d4e5a1''"
definition userB :: objectid where "userB = ObjectId ''65a1f0c2e4b0a1b2c3d4e5b2''"
definition imageX :: objectid where "imageX = ObjectId ''65a1f0c2e4b0a1b2c3d4e5c3''"
definition likeL1 :: objectid where "likeL1 = ObjectId ''65a1f0c2e4b0a1b2c3d4e5d4''"
definition likeL2 :: objectid where "likeL2 = ObjectId ''65a1f0c2e4b0a1b2c3d4e5d5''"

definition image_x :: image where
  "image_x = \<lparr>image_id = imageX, filename = ''1700-42-x.png'', originalname = ''x.png'',
              filepath = ''/uploads/1700-42-x.png'', uploadedBy = userA, description = [],
              isPublic = False, likesCount = 0, createdAt = 1700\<rparr>"

definition like_b :: like where
  "like_b = \<lparr>like_id = likeL1, userId = userB, imageId = imageX, like_createdAt = 1800\<rparr>"

definition db_uploaded :: db where
  "db_uploaded = snd (upload userA imageX ''1700-42-x.png'' ''x.png'' [] False 1700 empty_db)"

definition db_liked :: db where
  "db_liked = snd (toggle_like userB imageX likeL1 1800 db_uploaded)"

text \<open>
  User A uploads X, user B uploads Y (later); then A likes Y, and after that A likes X.
\<close>

definition imageY :: objectid where "imageY = ObjectId ''65a1f0c2e4b0a1b2c3d4e5c4''"

definition image_y :: image where
  "image_y = \<lparr>image_id = imageY, filename = ''1750-7-y.png'', originalname = ''y.png'',
              filepath = ''/uploads/1750-7-y.png'', uploadedBy = userB, description = [],
              isPublic = True, likesCount = 0, createdAt = 1750\<rparr>"

definition like_ay :: like where
  "like_ay = \<lparr>like_id = likeL1, userId = userA, imageId = imageY, like_createdAt = 1800\<rparr>"

definition like_ax :: like where
  "like_ax = \<lparr>like_id = likeL2, userId = userA, imageId = imageX, like_createdAt = 1900\<rparr>"

definition db_two :: db where
  "db_two =
     snd (toggle_like userA imageX likeL2 1900
       (snd (toggle_like userA imageY likeL1 1800
         (snd (upload userB imageY ''1750-7-y.png'' ''y.png'' [] True 1750 db_uploaded)))))"

section \<open>Lemmas about the queries\<close>

lemma findOne_append_new:
  "findOne P xs = None \<Longrightarrow> P x \<Longrightarrow> findOne P (xs @ [x]) = Some x"
  by (induction xs) (auto simp: findOne_def split: if_splits)

lemma deleteOne_append_new:
  "\<forall>y\<in>set xs. \<not> P y \<Longrightarrow> P x \<Longrightarrow> deleteOne P (xs @ [x]) = xs"
  by (induction xs) auto

lemma findById_in_set: "findById i xs = Some img \<Longrightarrow> img \<in> set xs \<and> image_id img = i"
  by (induction xs) (auto simp: findById_def findOne_def split: if_splits)

lemma findById_save_same:
  "findById i xs = Some img \<Longrightarrow> image_id img' = i \<Longrightarrow>
   findById i (save_likesCount img' xs) = Some (img\<lparr>likesCount := likesCount img'\<rparr>)"
  by (induction xs) (auto simp: findById_def findOne_def save_likesCount_def split: if_splits)

lemma findById_save_other:
  "j \<noteq> image_id img' \<Longrightarrow> findById j (save_likesCount img' xs) = findById j xs"
  by (induction xs) (auto simp: findById_def findOne_def save_likesCount_def split: if_splits)

lemma map_image_id_save: "map image_id (save_likesCount img' xs) = map image_id xs"
  by (induction xs) (auto simp: save_likesCount_def)

lemma save_likesCount_undo:
  "findById i xs = Some img \<Longrightarrow> image_id img' = i \<Longrightarrow> image_id img'' = i \<Longrightarrow>
   likesCount img'' = likesCount img \<Longrightarrow>
   save_likesCount img'' (save_likesCount img' xs) = xs"
  by (induction xs) (auto simp: findById_def findOne_def save_likesCount_def split: if_splits)

lemma toggle_like_fresh:
  assumes "findById i (db_images d) = Some img"
    and "findOne (\<lambda>l. userId l = u \<and> imageId l = i) (db_likes d) = None"
    and "new_id \<notin> like_id ` set (db_likes d)"
  shows "toggle_like u i new_id now d =
     (Inr \<lparr>resp_isLiked = True, resp_likesCount = likesCount img + 1\<rparr>,
      \<lparr>db_images = save_likesCount (img\<lparr>likesCount := likesCount img + 1\<rparr>) (db_images d),
       db_likes = db_likes d @ [\<lparr>like_id = new_id, userId = u, imageId = i, like_createdAt = now\<rparr>]\<rparr>)"
proof -
  have "\<not> list_ex (\<lambda>x. like_id x = new_id \<or> (userId x = u \<and> imageId x = i)) (db_likes d)"
    using assms(2,3) by (auto simp: findOne_def find_None_iff list_ex_iff)
  then show ?thesis
    using assms(1,2) by (simp add: toggle_like_def insert_like_def Let_def)
qed

lemma toggle_like_twice:
  assumes "findById i (db_images d) = Some img"
    and "0 \<le> likesCount img"
    and "findOne (\<lambda>l. userId l = u \<and> imageId l = i) (db_likes d) = None"
    and "id1 \<notin> like_id ` set (db_likes d)"
  shows "toggle_like u i id2 now2 (snd (toggle_like u i id1 now1 d)) =
     (Inr \<lparr>resp_isLiked = False, resp_likesCount = likesCount img\<rparr>, d)"
proof -
  let ?l = "\<lparr>like_id = id1, userId = u, imageId = i, like_createdAt = now1\<rparr>"
  let ?img' = "img\<lparr>likesCount := likesCount img + 1\<rparr>"
  have idi: "image_id img = i" using assms(1) findById_in_set by blast
  have f1: "findById i (save_likesCount ?img' (db_images d)) = Some ?img'"
    using findById_save_same[OF assms(1), of ?img'] idi by simp
  have f2: "findOne (\<lambda>l. userId l = u \<and> imageId l = i) (db_likes d @ [?l]) = Some ?l"
    by (rule findOne_append_new[OF assms(3)]) simp
  have f3: "deleteOne (\<lambda>l. like_id l = id1) (db_likes d @ [?l]) = db_likes d"
    by (rule deleteOne_append_new) (use assms(4) in auto)
  have f4: "save_likesCount (?img'\<lparr>likesCount := max 0 (likesCount ?img' - 1)\<rparr>)
              (save_likesCount ?img' (db_images d)) = db_images d"
    by (rule save_likesCount_undo[OF assms(1)]) (use idi assms(2) in auto)
  show ?thesis
    unfolding toggle_like_fresh[OF assms(1,3,4)]
    using f1 f2 f3 f4 assms(2) by (simp add: toggle_like_def Let_def)
qed


section \<open>The invariant holds in every reachable state\<close>


lemma set_deleteOne_subset: "set (deleteOne P xs) \<subseteq> set xs"
  by (induction xs) auto

lemma deleteOne_keeps: "x \<in> set xs \<Longrightarrow> \<not> P x \<Longrightarrow> x \<in> set (deleteOne P xs)"
  by (induction xs) auto

lemma distinct_map_deleteOne: "distinct (map f xs) \<Longrightarrow> distinct (map f (deleteOne P xs))"
proof (induction xs)
  case Nil
  then show ?case by simp
next
  case (Cons x xs)
  have "f x \<notin> f ` set (deleteOne P xs)"
    using Cons.prems set_deleteOne_subset[of P xs] by auto
  with Cons show ?case by auto
qed

lemma set_save_likesCount:
  "x \<in> set (save_likesCount img' xs) \<Longrightarrow>
     x \<in> set xs \<or> (\<exists>y\<in>set xs. x = y\<lparr>likesCount := likesCount img'\<rparr>)"
  by (induction xs) (auto simp: save_likesCount_def split: if_splits)

lemma db_inv_empty: "db_inv empty_db"
  by (simp add: db_inv_def empty_db_def)

lemma db_inv_upload: "db_inv d \<Longrightarrow> db_inv (snd (upload u new_id fname oname descr pub now d))"
  by (auto simp: db_inv_def upload_def insert_image_def Let_def list_ex_iff)

lemma images_after_save_nonneg:
  assumes "\<forall>img\<in>set xs. 0 \<le> likesCount img" and "0 \<le> likesCount img'"
  shows "\<forall>img\<in>set (save_likesCount img' xs). 0 \<le> likesCount img"
  using set_save_likesCount[of _ img' xs] assms by fastforce

lemma ids_after_save: "image_id ` set (save_likesCount img' xs) = image_id ` set xs"
  using map_image_id_save[of img' xs] by (metis set_map)

lemma db_inv_toggle:
  assumes "db_inv d"
  shows "db_inv (snd (toggle_like u i new_id now d))"
proof (cases "findById i (db_images d)")
  case None
  then show ?thesis using assms by (simp add: toggle_like_def)
next
  case (Some img)
  have nn: "0 \<le> likesCount img" and idi: "image_id img = i" and mem: "img \<in> set (db_images d)"
    using findById_in_set[OF Some] assms by (auto simp: db_inv_def)
  show ?thesis
  proof (cases "findOne (\<lambda>l. userId l = u \<and> imageId l = i) (db_likes d)")
    case None
    show ?thesis
    proof (cases "insert_like \<lparr>like_id = new_id, userId = u, imageId = i,
                     like_createdAt = now\<rparr> (db_likes d)")
      case (Inl e)
      then show ?thesis using assms Some None by (simp add: toggle_like_def)
    next
      case (Inr likes')
      then have l': "likes' = db_likes d @ [\<lparr>like_id = new_id, userId = u, imageId = i,
                     like_createdAt = now\<rparr>]"
        and no: "\<forall>x\<in>set (db_likes d). \<not> (userId x = u \<and> imageId x = i)"
        by (auto simp: insert_like_def list_ex_iff split: if_splits)
      let ?img' = "img\<lparr>likesCount := likesCount img + 1\<rparr>"
      have d': "snd (toggle_like u i new_id now d) =
          \<lparr>db_images = save_likesCount ?img' (db_images d), db_likes = likes'\<rparr>"
        using Some None Inr by (simp add: toggle_like_def Let_def)
      have 1: "distinct (map image_id (save_likesCount ?img' (db_images d)))"
        using assms by (simp add: map_image_id_save db_inv_def)
      have 2: "\<forall>x\<in>set (save_likesCount ?img' (db_images d)). 0 \<le> likesCount x"
        by (rule images_after_save_nonneg) (use assms nn in \<open>auto simp: db_inv_def\<close>)
      have 3: "\<forall>l\<in>set likes'. imageId l \<in> image_id ` set (save_likesCount ?img' (db_images d))"
        unfolding ids_after_save l' using assms mem idi by (auto simp: db_inv_def)
      have 4: "distinct (map (\<lambda>l. (userId l, imageId l)) likes')"
        unfolding l' using assms no by (auto simp: db_inv_def)
      show ?thesis unfolding d' db_inv_def using 1 2 3 4 by simp
    qed
  next
    case (Some ex)
    let ?img' = "img\<lparr>likesCount := max 0 (likesCount img - 1)\<rparr>"
    let ?likes' = "deleteOne (\<lambda>l. like_id l = like_id ex) (db_likes d)"
    have d': "snd (toggle_like u i new_id now d) =
          \<lparr>db_images = save_likesCount ?img' (db_images d), db_likes = ?likes'\<rparr>"
      using \<open>findById i (db_images d) = Some img\<close> Some by (simp add: toggle_like_def Let_def)
    have 1: "distinct (map image_id (save_likesCount ?img' (db_images d)))"
      using assms by (simp add: map_image_id_save db_inv_def)
    have 2: "\<forall>x\<in>set (save_likesCount ?img' (db_images d)). 0 \<le> likesCount x"
      by (rule images_after_save_nonneg) (use assms in \<open>auto simp: db_inv_def\<close>)
    have 3: "\<forall>l\<in>set ?likes'. imageId l \<in> image_id ` set (save_likesCount ?img' (db_images d))"
      unfolding ids_after_save
      using assms set_deleteOne_subset[of "\<lambda>l. like_id l = like_id ex" "db_likes d"]
      by (auto simp: db_inv_def)
    have 4: "distinct (map (\<lambda>l. (userId l, imageId l)) ?likes')"
      using assms by (simp add: distinct_map_deleteOne db_inv_def)
    show ?thesis unfolding d' db_inv_def using 1 2 3 4 by simp
  qed
qed

lemma db_inv_delete:
  assumes "db_inv d"
  shows "db_inv (snd (delete_image u i d))"
proof (cases "findById i (db_images d)")
  case None
  then show ?thesis using assms by (simp add: delete_image_def)
next
  case (Some img)
  show ?thesis
  proof (cases "toString (uploadedBy img) \<noteq> toString u")
    case True
    then show ?thesis using assms Some by (simp add: delete_image_def)
  next
    case False
    let ?imgs = "deleteOne (\<lambda>x. image_id x = i) (db_images d)"
    let ?likes = "deleteMany (\<lambda>l. imageId l = i) (db_likes d)"
    have d': "snd (delete_image u i d) = \<lparr>db_images = ?imgs, db_likes = ?likes\<rparr>"
      using Some False by (simp add: delete_image_def)
    have 1: "distinct (map image_id ?imgs)"
      using assms by (simp add: distinct_map_deleteOne db_inv_def)
    have 2: "\<forall>x\<in>set ?imgs. 0 \<le> likesCount x"
      using assms set_deleteOne_subset[of "\<lambda>x. image_id x = i" "db_images d"]
      by (auto simp: db_inv_def)
    have 3: "\<forall>l\<in>set ?likes. imageId l \<in> image_id ` set ?imgs"
    proof
      fix l assume "l \<in> set ?likes"
      then have "l \<in> set (db_likes d)" and ne: "imageId l \<noteq> i"
        by (auto simp: deleteMany_def)
      then obtain x where "x \<in> set (db_images d)" "image_id x = imageId l"
        using assms by (auto simp: db_inv_def)
      then have "x \<in> set ?imgs" using ne by (intro deleteOne_keeps) auto
      then show "imageId l \<in> image_id ` set ?imgs"
        using \<open>image_id x = imageId l\<close> by force
    qed
    have 4: "distinct (map (\<lambda>l. (userId l, imageId l)) ?likes)"
      using assms by (simp add: deleteMany_def distinct_map_filter db_inv_def)
    show ?thesis unfolding d' db_inv_def using 1 2 3 4 by simp
  qed
qed

lemma reachable_db_inv: "reachable d \<Longrightarrow> db_inv d"
  by (induction rule: reachable.induct)
     (simp_all add: db_inv_empty db_inv_upload db_inv_toggle db_inv_delete)


subsection \<open>The example states\<close>

lemma ids_distinct:
  "userA \<noteq> userB" "imageX \<noteq> likeL1" "likeL1 \<noteq> likeL2"
  by (simp_all add: userA_def userB_def imageX_def likeL1_def likeL2_def)

lemma db_uploaded_eq: "db_uploaded = \<lparr>db_images = [image_x], db_likes = []\<rparr>"
  by (simp add: db_uploaded_def upload_def insert_image_def empty_db_def image_x_def Let_def)

lemma db_liked_eq: "db_liked = \<lparr>db_images = [image_x\<lparr>likesCount := 1\<rparr>], db_likes = [like_b]\<rparr>"
  by (simp add: db_liked_def db_uploaded_eq toggle_like_def findById_def findOne_def
      insert_like_def save_likesCount_def image_x_def like_b_def Let_def)

lemma reachable_db_uploaded: "reachable db_uploaded"
  unfolding db_uploaded_def by (intro reachable.intros)

lemma reachable_db_liked: "reachable db_liked"
  unfolding db_liked_def by (intro reachable.intros reachable_db_uploaded)

lemma toggle_seq_even_aux:
  assumes "findById i (db_images d) = Some img"
    and "0 \<le> likesCount img"
    and "findOne (\<lambda>l. userId l = u \<and> imageId l = i) (db_likes d) = None"
  shows "even (length es) \<Longrightarrow> \<forall>e\<in>set es. fst e \<notin> like_id ` set (db_likes d) \<Longrightarrow>
     snd (toggle_seq u i es d) = d \<and>
     (es \<noteq> [] \<longrightarrow> last (fst (toggle_seq u i es d)) =
        Inr \<lparr>resp_isLiked = False, resp_likesCount = likesCount img\<rparr>)"
proof (induction es rule: induct_list012)
  case 1
  then show ?case by simp
next
  case (2 x)
  then show ?case by simp
next
  case (3 x y zs)
  obtain id1 now1 where x: "x = (id1, now1)" by (cases x)
  obtain id2 now2 where y: "y = (id2, now2)" by (cases y)
  have fresh: "id1 \<notin> like_id ` set (db_likes d)" using 3(4) x by auto
  have tw: "toggle_like u i id2 now2 (snd (toggle_like u i id1 now1 d)) =
     (Inr \<lparr>resp_isLiked = False, resp_likesCount = likesCount img\<rparr>, d)"
    by (rule toggle_like_twice[OF assms fresh])
  have ih: "snd (toggle_seq u i zs d) = d \<and>
     (zs \<noteq> [] \<longrightarrow> last (fst (toggle_seq u i zs d)) =
        Inr \<lparr>resp_isLiked = False, resp_likesCount = likesCount img\<rparr>)"
    using 3 by simp
  show ?case
    using tw ih unfolding x y
    by (cases "toggle_like u i id1 now1 d"; cases "toggle_seq u i zs d") (auto simp: Let_def)
qed


section \<open>Like toggle\<close>

text \<open>
  C1. In a reachable state where user \<open>u\<close> has no like on the stored image \<open>i\<close>, an
  even, non-zero number of toggles by \<open>u\<close> on \<open>i\<close> in a row (each with a fresh like id)
  ends with the response \<open>isLiked = false\<close> and the image's original \<open>likesCount\<close>,
  and leaves the database as it was.
\<close>

theorem toggle_even_restores:
  assumes "reachable d"
    and "findById i (db_images d) = Some img"
    and "findOne (\<lambda>l. userId l = u \<and> imageId l = i) (db_likes d) = None"
    and "\<forall>e\<in>set es. fst e \<notin> like_id ` set (db_likes d)"
    and "es \<noteq> []" and "even (length es)"
  shows "snd (toggle_seq u i es d) = d \<and>
     last (fst (toggle_seq u i es d)) =
       Inr \<lparr>resp_isLiked = False, resp_likesCount = likesCount img\<rparr>"
proof -
  have "0 \<le> likesCount img"
    using reachable_db_inv[OF assms(1)] findById_in_set[OF assms(2)] by (simp add: db_inv_def)
  from toggle_seq_even_aux[OF assms(2) this assms(3) assms(6) assms(4)] assms(5)
  show ?thesis by simp
qed

theorem toggle_even_restores_witness:
  "reachable db_uploaded \<and>
   findById imageX (db_images db_uploaded) = Some image_x \<and>
   findOne (\<lambda>l. userId l = userB \<and> imageId l = imageX) (db_likes db_uploaded) = None \<and>
   likeL1 \<notin> like_id ` set (db_likes db_uploaded) \<and>
   likeL2 \<notin> like_id ` set (db_likes db_uploaded) \<and>
   even (length [(likeL1, 1800::int), (likeL2, 1900)]) \<and>
   snd (toggle_seq userB imageX [(likeL1, 1800), (likeL2, 1900)] db_uploaded) = db_uploaded \<and>
   last (fst (toggle_seq userB imageX [(likeL1, 1800), (likeL2, 1900)] db_uploaded)) =
     Inr \<lparr>resp_isLiked = False, resp_likesCount = 0\<rparr>"
proof -
  have h2: "findById imageX (db_images db_uploaded) = Some image_x"
    by (simp add: db_uploaded_eq findById_def findOne_def image_x_def)
  have h3: "findOne (\<lambda>l. userId l = userB \<and> imageId l = imageX) (db_likes db_uploaded) = None"
    by (simp add: db_uploaded_eq findOne_def)
  have h4: "\<forall>e\<in>set [(likeL1, 1800::int), (likeL2, 1900)]. fst e \<notin> like_id ` set (db_likes db_uploaded)"
    by (simp add: db_uploaded_eq)
  have h5: "[(likeL1, 1800::int), (likeL2, 1900)] \<noteq> []" by simp
  have h6: "even (length [(likeL1, 1800::int), (likeL2, 1900)])" by simp
  have c: "likesCount image_x = 0" by (simp add: image_x_def)
  show ?thesis
    using toggle_even_restores[OF reachable_db_uploaded h2 h3 h4 h5 h6] reachable_db_uploaded h2 h3 h4 c
    by (simp del: toggle_seq.simps)
qed

text \<open>
  C2. When the image \<open>i\<close> is stored, user \<open>u\<close> has no like on it and the new like id
  is fresh, one toggle answers \<open>isLiked = true\<close> with the count raised by exactly 1,
  appends exactly one Like record for \<open>(u, i)\<close>, stores the raised count on the image
  and changes no other image.
\<close>

theorem toggle_like_creates:
  assumes "findById i (db_images d) = Some img"
    and "findOne (\<lambda>l. userId l = u \<and> imageId l = i) (db_likes d) = None"
    and "new_id \<notin> like_id ` set (db_likes d)"
  shows "fst (toggle_like u i new_id now d) =
           Inr \<lparr>resp_isLiked = True, resp_likesCount = likesCount img + 1\<rparr> \<and>
         db_likes (snd (toggle_like u i new_id now d)) =
           db_likes d @ [\<lparr>like_id = new_id, userId = u, imageId = i, like_createdAt = now\<rparr>] \<and>
         findById i (db_images (snd (toggle_like u i new_id now d))) =
           Some (img\<lparr>likesCount := likesCount img + 1\<rparr>) \<and>
         map image_id (db_images (snd (toggle_like u i new_id now d))) = map image_id (db_images d) \<and>
         (\<forall>j. j \<noteq> i \<longrightarrow>
            findById j (db_images (snd (toggle_like u i new_id now d))) = findById j (db_images d))"
proof -
  have idi: "image_id img = i" using assms(1) findById_in_set by blast
  have same: "findById i (save_likesCount (img\<lparr>likesCount := likesCount img + 1\<rparr>) (db_images d)) =
      Some (img\<lparr>likesCount := likesCount img + 1\<rparr>)"
    using findById_save_same[OF assms(1), of "img\<lparr>likesCount := likesCount img + 1\<rparr>"] idi
    by simp
  have other: "\<forall>j. j \<noteq> i \<longrightarrow>
      findById j (save_likesCount (img\<lparr>likesCount := likesCount img + 1\<rparr>) (db_images d)) =
      findById j (db_images d)"
    using idi by (simp add: findById_save_other)
  show ?thesis
    unfolding toggle_like_fresh[OF assms]
    using same other by (simp add: map_image_id_save)
qed

theorem toggle_like_creates_witness:
  "findById imageX (db_images db_uploaded) = Some image_x \<and>
   findOne (\<lambda>l. userId l = userB \<and> imageId l = imageX) (db_likes db_uploaded) = None \<and>
   likeL1 \<notin> like_id ` set (db_likes db_uploaded) \<and>
   fst (toggle_like userB imageX likeL1 1800 db_uploaded) =
     Inr \<lparr>resp_isLiked = True, resp_likesCount = 1\<rparr> \<and>
   db_likes (snd (toggle_like userB imageX likeL1 1800 db_uploaded)) = [like_b] \<and>
   findById imageX (db_images (snd (toggle_like userB imageX likeL1 1800 db_uploaded))) =
     Some (image_x\<lparr>likesCount := 1\<rparr>)"
proof -
  have h1: "findById imageX (db_images db_uploaded) = Some image_x"
    by (simp add: db_uploaded_eq findById_def findOne_def image_x_def)
  have h2: "findOne (\<lambda>l. userId l = userB \<and> imageId l = imageX) (db_likes db_uploaded) = None"
    by (simp add: db_uploaded_eq findOne_def)
  have h3: "likeL1 \<notin> like_id ` set (db_likes db_uploaded)"
    by (simp add: db_uploaded_eq)
  have c: "likesCount image_x = 0" by (simp add: image_x_def)
  have l: "db_likes db_uploaded = []" by (simp add: db_uploaded_eq)
  show ?thesis
    using toggle_like_creates[OF h1 h2 h3, of 1800] h1 h2 h3 c l
    by (simp add: like_b_def)
qed

text \<open>
  C3. In every state reachable by uploads, toggles and deletions no stored
  \<open>likesCount\<close> is negative, no toggle answers a negative count, and the unlike branch
  answers the count decremented by 1 and floored at 0.
\<close>

theorem likesCount_never_negative:
  assumes "reachable d"
  shows "(\<forall>img\<in>set (db_images d). 0 \<le> likesCount img) \<and>
         (\<forall>u i new_id now r. fst (toggle_like u i new_id now d) = Inr r \<longrightarrow> 0 \<le> resp_likesCount r) \<and>
         (\<forall>u i new_id now img l.
            findById i (db_images d) = Some img \<longrightarrow>
            findOne (\<lambda>l. userId l = u \<and> imageId l = i) (db_likes d) = Some l \<longrightarrow>
            fst (toggle_like u i new_id now d) =
              Inr \<lparr>resp_isLiked = False, resp_likesCount = max 0 (likesCount img - 1)\<rparr>)"
proof -
  have nn: "\<forall>img\<in>set (db_images d). 0 \<le> likesCount img"
    using reachable_db_inv[OF assms] by (simp add: db_inv_def)
  have resp: "0 \<le> resp_likesCount r" if "fst (toggle_like u i new_id now d) = Inr r"
    for u i new_id now r
  proof (cases "findById i (db_images d)")
    case None
    then show ?thesis using that by (simp add: toggle_like_def)
  next
    case (Some img)
    then have "0 \<le> likesCount img" using nn findById_in_set by blast
    then show ?thesis
      using that Some
      by (auto simp: toggle_like_def Let_def split: option.splits sum.splits)
  qed
  have floor: "fst (toggle_like u i new_id now d) =
      Inr \<lparr>resp_isLiked = False, resp_likesCount = max 0 (likesCount img - 1)\<rparr>"
    if "findById i (db_images d) = Some img"
      and "findOne (\<lambda>l. userId l = u \<and> imageId l = i) (db_likes d) = Some l"
    for u i new_id now img l
    using that by (simp add: toggle_like_def Let_def)
  show ?thesis using nn resp floor by blast
qed

theorem likesCount_never_negative_witness:
  "reachable db_liked \<and>
   image_x\<lparr>likesCount := 1\<rparr> \<in> set (db_images db_liked) \<and>
   0 \<le> likesCount (image_x\<lparr>likesCount := 1\<rparr>) \<and>
   findById imageX (db_images db_liked) = Some (image_x\<lparr>likesCount := 1\<rparr>) \<and>
   findOne (\<lambda>l. userId l = userB \<and> imageId l = imageX) (db_likes db_liked) = Some like_b \<and>
   fst (toggle_like userB imageX likeL2 1900 db_liked) =
     Inr \<lparr>resp_isLiked = False, resp_likesCount = 0\<rparr>"
proof -
  have h1: "findById imageX (db_images db_liked) = Some (image_x\<lparr>likesCount := 1\<rparr>)"
    by (simp add: db_liked_eq findById_def findOne_def image_x_def)
  have h2: "findOne (\<lambda>l. userId l = userB \<and> imageId l = imageX) (db_likes db_liked) = Some like_b"
    by (simp add: db_liked_eq findOne_def like_b_def)
  have m: "image_x\<lparr>likesCount := 1\<rparr> \<in> set (db_images db_liked)"
    by (simp add: db_liked_eq)
  show ?thesis
    using likesCount_never_negative[OF reachable_db_liked] reachable_db_liked h1 h2 m
    by auto
qed

section \<open>Image deletion\<close>

lemma toString_inject: "toString a = toString b \<longleftrightarrow> a = b"
  by (cases a; cases b) simp

text \<open>
  C8. A requester who is not the uploader of the stored image \<open>i\<close> gets Forbidden
  (status 403), and the database, with every Image record, Like record and count, is
  unchanged.
\<close>

theorem delete_not_owner_forbidden:
  assumes "findById i (db_images d) = Some img" and "uploadedBy img \<noteq> u"
  shows "delete_image u i d = (Inl Forbidden, d)"
  using assms by (simp add: delete_image_def toString_inject)

theorem delete_not_owner_forbidden_witness:
  "findById imageX (db_images db_liked) = Some (image_x\<lparr>likesCount := 1\<rparr>) \<and>
   uploadedBy (image_x\<lparr>likesCount := 1\<rparr>) \<noteq> userB \<and>
   delete_image userB imageX db_liked = (Inl Forbidden, db_liked)"
proof -
  have h1: "findById imageX (db_images db_liked) = Some (image_x\<lparr>likesCount := 1\<rparr>)"
    by (simp add: db_liked_eq findById_def findOne_def image_x_def)
  have h2: "uploadedBy (image_x\<lparr>likesCount := 1\<rparr>) \<noteq> userB"
    using ids_distinct(1) by (simp add: image_x_def)
  show ?thesis
    using delete_not_owner_forbidden[OF h1 h2] h1 h2 by simp
qed

section \<open>The second example state\<close>

lemma ids_distinct2: "imageX \<noteq> imageY" "userB \<noteq> userA"
  by (simp_all add: userA_def userB_def imageX_def imageY_def)

lemma db_two_eq:
  "db_two = \<lparr>db_images = [image_x\<lparr>likesCount := 1\<rparr>, image_y\<lparr>likesCount := 1\<rparr>],
              db_likes = [like_ay, like_ax]\<rparr>"
  by (simp add: db_two_def db_uploaded_eq upload_def insert_image_def toggle_like_def
      findById_def findOne_def insert_like_def save_likesCount_def image_x_def image_y_def
      like_ay_def like_ax_def Let_def
      userA_def userB_def imageX_def imageY_def likeL1_def likeL2_def)

lemma reachable_db_two: "reachable db_two"
  unfolding db_two_def by (intro reachable.intros reachable_db_uploaded)

lemma uniqueImages_db_two:
  "uniqueImages userA db_two = [image_y\<lparr>likesCount := 1\<rparr>, image_x\<lparr>likesCount := 1\<rparr>]"
  by (simp add: uniqueImages_def db_two_eq find_docs_def distinct_imageId_def new_Map_def
      map_values_def sort_cmp_def by_createdAt_desc_def image_x_def image_y_def
      like_ay_def like_ax_def Let_def
      userA_def userB_def imageX_def imageY_def likeL1_def likeL2_def)

lemmas ex_defs = image_x_def image_y_def like_ay_def like_ax_def
  userA_def userB_def imageX_def imageY_def likeL1_def likeL2_def

section \<open>Sorting, slicing and the id map of the liked view\<close>

lemma insort_cmp_insort_key:
  "(\<And>a b. cmp a b \<le> 0 \<longleftrightarrow> f a \<le> f b) \<Longrightarrow> insort_cmp cmp x ys = insort_key f x ys"
  for f :: "'a \<Rightarrow> int"
  by (induction ys) simp_all

lemma sort_cmp_sort_key:
  fixes f :: "'a \<Rightarrow> int"
  assumes "\<And>a b. cmp a b \<le> 0 \<longleftrightarrow> f a \<le> f b"
  shows "sort_cmp cmp xs = sort_key f xs"
proof -
  have "insort_cmp cmp = insort_key f"
    by (intro ext) (rule insort_cmp_insort_key[OF assms])
  then show ?thesis by (simp add: sort_cmp_def sort_key_def)
qed

lemma sort_images_desc:
  "sort_cmp by_createdAt_desc xs = sort_key (\<lambda>x. - createdAt x) xs"
  by (rule sort_cmp_sort_key) (simp add: by_createdAt_desc_def)

lemma sort_likes_desc:
  "sort_cmp by_like_createdAt_desc xs = sort_key (\<lambda>l. - like_createdAt l) xs"
  by (rule sort_cmp_sort_key) (simp add: by_like_createdAt_desc_def)

lemma sorted_desc_sort_key:
  "sorted_wrt (\<lambda>a b. f b \<le> f a) (sort_key (\<lambda>x. - f x) xs)" for f :: "'a \<Rightarrow> int"
proof -
  have "sorted (map (\<lambda>x. - f x) (sort_key (\<lambda>x. - f x) xs))"
    by (rule sorted_sort_key)
  then show ?thesis by (simp add: sorted_map)
qed


lemma slice_segment: "\<exists>a b. slice xs s e = take a (drop b xs)"
  unfolding slice_def Let_def by blast


lemma imageMap_Some:
  "fold (\<lambda>img m. m(key img \<mapsto> img)) xs m0 k = Some v \<Longrightarrow>
     (v \<in> set xs \<and> key v = k) \<or> m0 k = Some v"
proof (induction xs arbitrary: m0)
  case Nil
  then show ?case by simp
next
  case (Cons x xs)
  from Cons.IH[of "m0(key x \<mapsto> x)"] Cons.prems show ?case
    by (auto split: if_splits)
qed

lemma imageMap_other:
  "k \<notin> key ` set xs \<Longrightarrow> fold (\<lambda>img m. m(key img \<mapsto> img)) xs m0 k = m0 k"
  by (induction xs arbitrary: m0) auto

lemma imageMap_lookup:
  "distinct (map key xs) \<Longrightarrow> x \<in> set xs \<Longrightarrow>
     fold (\<lambda>img m. m(key img \<mapsto> img)) xs m0 (key x) = Some x"
proof (induction xs arbitrary: m0)
  case Nil
  then show ?case by simp
next
  case (Cons y ys)
  show ?case
  proof (cases "x = y")
    case True
    then have "key y \<notin> key ` set ys" using Cons.prems by auto
    then have "fold (\<lambda>img m. m(key img \<mapsto> img)) ys (m0(key y \<mapsto> y)) (key y) =
               (m0(key y \<mapsto> y)) (key y)"
      by (rule imageMap_other)
    also have "\<dots> = Some y" by simp
    finally show ?thesis using True by (simp del: fun_upd_apply)
  next
    case False
    then show ?thesis using Cons by auto
  qed
qed

lemma set_map_filter: "set (List.map_filter f xs) = {y. \<exists>x\<in>set xs. f x = Some y}"
  by (induction xs) (auto split: option.splits)

lemma get_liked_entries:
  assumes "get_liked v pg limit d = Inr r" and "x \<in> set (images r)"
  shows "isLiked x \<and> doc x \<in> set (db_images d) \<and>
         (\<exists>l\<in>set (db_likes d). userId l = v \<and> imageId l = image_id (doc x))"
proof -
  let ?sorted = "sort_cmp by_like_createdAt_desc (find_docs (\<lambda>l. userId l = v) (db_likes d))"
  obtain likes where sk: "skip_limit ((pg - 1) * limit) limit ?sorted = Inr likes"
    using assms(1) by (cases "skip_limit ((pg - 1) * limit) limit ?sorted")
      (simp_all add: get_liked_def Let_def)
  let ?ids = "map imageId likes"
  let ?imgs = "find_docs (\<lambda>img. image_id img \<in> set ?ids) (db_images d)"
  let ?m = "fold (\<lambda>img m. m(toString (image_id img) \<mapsto> img)) ?imgs Map.empty"
  have r: "images r = map (\<lambda>img. \<lparr>doc = img, isLiked = True\<rparr>)
                       (List.map_filter (\<lambda>i. ?m (toString i)) ?ids)"
    using assms(1) sk by (auto simp: get_liked_def Let_def)
  from assms(2) obtain img j where x: "x = \<lparr>doc = img, isLiked = True\<rparr>"
    and j: "j \<in> set ?ids" and m: "?m (toString j) = Some img"
    unfolding r by (auto simp: set_map_filter)
  from imageMap_Some[OF m] have mem: "img \<in> set ?imgs" and key: "toString (image_id img) = toString j"
    by auto
  have idj: "image_id img = j" using key by (simp add: toString_inject)
  have sub: "set likes \<subseteq> set ?sorted"
    using sk by (auto simp: skip_limit_def split: if_splits dest: in_set_takeD in_set_dropD)
  have "set ?sorted = {l \<in> set (db_likes d). userId l = v}"
    by (simp add: sort_likes_desc find_docs_def)
  with sub j obtain l where "l \<in> set (db_likes d)" "userId l = v" "imageId l = j"
    by auto
  with x mem idj show ?thesis by (auto simp: find_docs_def)
qed

text \<open>
  C9. After the uploader has deleted the stored image \<open>i\<close>, no Like record references
  \<open>i\<close>, and no answer of the liked view, for any user, page and limit, contains \<open>i\<close>.
\<close>

theorem delete_cascades_likes:
  assumes "findById i (db_images d) = Some img" and "uploadedBy img = u"
  shows "fst (delete_image u i d) = Inr () \<and>
         (\<forall>l\<in>set (db_likes (snd (delete_image u i d))). imageId l \<noteq> i) \<and>
         (\<forall>v pg limit r. get_liked v pg limit (snd (delete_image u i d)) = Inr r \<longrightarrow>
            i \<notin> (\<lambda>x. image_id (doc x)) ` set (images r))"
proof -
  have d': "delete_image u i d =
      (Inr (), \<lparr>db_images = deleteOne (\<lambda>x. image_id x = i) (db_images d),
                db_likes = deleteMany (\<lambda>l. imageId l = i) (db_likes d)\<rparr>)"
    using assms by (simp add: delete_image_def)
  have likes: "\<forall>l\<in>set (db_likes (snd (delete_image u i d))). imageId l \<noteq> i"
    by (simp add: d' deleteMany_def)
  have "i \<notin> (\<lambda>x. image_id (doc x)) ` set (images r)"
    if "get_liked v pg limit (snd (delete_image u i d)) = Inr r" for v pg limit r
    using get_liked_entries[OF that] likes by blast
  with likes d' show ?thesis by simp
qed

theorem delete_cascades_likes_witness:
  "findById imageX (db_images db_two) = Some (image_x\<lparr>likesCount := 1\<rparr>) \<and>
   uploadedBy (image_x\<lparr>likesCount := 1\<rparr>) = userA \<and>
   fst (delete_image userA imageX db_two) = Inr () \<and>
   db_likes (snd (delete_image userA imageX db_two)) = [like_ay] \<and>
   map (\<lambda>x. image_id (doc x))
     (images (projr (get_liked userA 1 20 (snd (delete_image userA imageX db_two))))) = [imageY] \<and>
   imageX \<notin> (\<lambda>x. image_id (doc x)) `
     set (images (projr (get_liked userA 1 20 (snd (delete_image userA imageX db_two)))))"
proof -
  have h1: "findById imageX (db_images db_two) = Some (image_x\<lparr>likesCount := 1\<rparr>)"
    by (simp add: db_two_eq findById_def findOne_def image_x_def)
  have h2: "uploadedBy (image_x\<lparr>likesCount := 1\<rparr>) = userA"
    by (simp add: image_x_def)
  have d': "snd (delete_image userA imageX db_two) =
      \<lparr>db_images = [image_y\<lparr>likesCount := 1\<rparr>], db_likes = [like_ay]\<rparr>"
    by (simp add: delete_image_def db_two_eq findById_def findOne_def deleteMany_def ex_defs)
  have g: "get_liked userA 1 20 \<lparr>db_images = [image_y\<lparr>likesCount := 1\<rparr>], db_likes = [like_ay]\<rparr> =
      Inr \<lparr>images = [\<lparr>doc = image_y\<lparr>likesCount := 1\<rparr>, isLiked = True\<rparr>], total = 1,
           page = 1, pages = Some 1\<rparr>"
    by (simp add: get_liked_def skip_limit_def sort_cmp_def find_docs_def countDocuments_def
        ceil_div_def List.map_filter_simps Let_def ex_defs)
  have y: "image_id (image_y\<lparr>likesCount := 1\<rparr>) = imageY" by (simp add: image_y_def)
  show ?thesis
    using delete_cascades_likes[OF h1 h2] h1 h2 ids_distinct2(1)
    by (simp add: d' g y)
qed

section \<open>Statistics\<close>

lemma foldl_add_sum_list:
  "foldl (\<lambda>s x. s + f x) a xs = a + sum_list (map f xs)" for a :: int
  by (induction xs arbitrary: a) simp_all

lemma stats_sum_list:
  "stats u d = sum_list (map likesCount (filter (\<lambda>img. uploadedBy img = u) (db_images d)))"
proof -
  have "(\<lambda>(sum::int) img. sum + (if likesCount img = 0 then 0 else likesCount img)) =
        (\<lambda>sum img. sum + likesCount img)"
    by (intro ext) simp
  then show ?thesis
    by (simp add: stats_def find_docs_def foldl_add_sum_list)
qed

text \<open>
  C10. \<open>totalLikes\<close> is the sum of \<open>likesCount\<close> over the images whose uploader is
  the requester; in a reachable state it is not negative; and it is the same in every
  database that holds the same uploads of the requester, whatever others uploaded.
\<close>

theorem stats_total:
  assumes "reachable d"
  shows "stats u d = sum_list (map likesCount (filter (\<lambda>img. uploadedBy img = u) (db_images d))) \<and>
         0 \<le> stats u d \<and>
         (\<forall>d'. filter (\<lambda>img. uploadedBy img = u) (db_images d') =
                 filter (\<lambda>img. uploadedBy img = u) (db_images d) \<longrightarrow> stats u d' = stats u d)"
proof -
  have "\<forall>img\<in>set (db_images d). 0 \<le> likesCount img"
    using reachable_db_inv[OF assms] by (simp add: db_inv_def)
  then have "0 \<le> sum_list (map likesCount (filter (\<lambda>img. uploadedBy img = u) (db_images d)))"
    by (intro sum_list_nonneg) auto
  then show ?thesis by (simp add: stats_sum_list)
qed

theorem stats_total_witness:
  "reachable db_liked \<and> stats userA db_liked = 1 \<and>
   stats userA (db_liked\<lparr>db_images := image_y\<lparr>likesCount := 5\<rparr> # db_images db_liked\<rparr>) = stats userA db_liked"
proof -
  have f: "filter (\<lambda>img. uploadedBy img = userA) (db_images (db_liked\<lparr>db_images := image_y\<lparr>likesCount := 5\<rparr> # db_images db_liked\<rparr>)) =
           filter (\<lambda>img. uploadedBy img = userA) (db_images db_liked)"
    using ids_distinct(1) by (simp add: image_y_def)
  have s: "sum_list (map likesCount (filter (\<lambda>img. uploadedBy img = userA) (db_images db_liked))) = 1"
    by (simp add: db_liked_eq image_x_def)
  show ?thesis
    using stats_total[OF reachable_db_liked, of userA] reachable_db_liked f s by simp
qed

section \<open>The collection view\<close>

lemma slice_take_drop:
  assumes "0 \<le> s" and "0 \<le> l"
  shows "slice xs s (s + l) = take (nat l) (drop (nat s) xs)"
proof (cases "s < int (length xs)")
  case True
  have "take (nat (min (s + l) (int (length xs)) - s)) (drop (nat s) xs) =
        take (nat l) (drop (nat s) xs)"
  proof (cases "s + l \<le> int (length xs)")
    case True
    then show ?thesis by (simp add: min_def)
  next
    case False
    then have "length (drop (nat s) xs) \<le> nat l" using assms by simp
    moreover have "length (drop (nat s) xs) \<le> nat (int (length xs) - s)"
      using assms by simp
    ultimately show ?thesis using False by (simp add: min_def)
  qed
  then show ?thesis using True assms by (simp add: slice_def Let_def min_def)
next
  case False
  then show ?thesis using assms by (simp add: slice_def Let_def min_def)
qed

lemma ceil_div_ceiling:
  assumes "limit \<noteq> 0"
  shows "ceil_div n limit = Some \<lceil>real n / real_of_int limit\<rceil>"
proof -
  have "\<lceil>real_of_int (int n) / real_of_int limit\<rceil> = - (- int n div limit)"
    by (rule ceiling_divide_eq_div)
  then show ?thesis using assms by (simp add: ceil_div_def)
qed

text \<open>
  C6. With page \<open>pg \<ge> 1\<close> and limit \<open>\<ge> 1\<close> the collection view answers the
  slice \<open>[(pg-1)*limit, (pg-1)*limit + limit)\<close> of the deduplicated, sorted list, its
  length as \<open>total\<close>, the page, and \<open>pages = ceil(total/limit)\<close>; a page that
  starts at or after \<open>total\<close> has no images.
\<close>

theorem collection_pagination:
  assumes "1 \<le> pg" and "1 \<le> limit"
  shows "map doc (images (get_collection u pg limit d)) =
           take (nat limit) (drop (nat ((pg - 1) * limit)) (uniqueImages u d)) \<and>
         total (get_collection u pg limit d) = length (uniqueImages u d) \<and>
         page (get_collection u pg limit d) = pg \<and>
         pages (get_collection u pg limit d) =
           Some \<lceil>real (length (uniqueImages u d)) / real_of_int limit\<rceil> \<and>
         (int (length (uniqueImages u d)) \<le> (pg - 1) * limit \<longrightarrow>
            images (get_collection u pg limit d) = [])"
proof -
  have s: "0 \<le> (pg - 1) * limit" using assms by simp
  have l: "0 \<le> limit" "limit \<noteq> 0" using assms by simp_all
  have sl: "slice (uniqueImages u d) ((pg - 1) * limit) ((pg - 1) * limit + limit) =
            take (nat limit) (drop (nat ((pg - 1) * limit)) (uniqueImages u d))"
    by (rule slice_take_drop[OF s l(1)])
  have e: "int (length (uniqueImages u d)) \<le> (pg - 1) * limit \<Longrightarrow>
           drop (nat ((pg - 1) * limit)) (uniqueImages u d) = []"
    using s by simp
  show ?thesis
    using sl e ceil_div_ceiling[OF l(2)]
    by (simp add: get_collection_def Let_def comp_def)
qed

theorem collection_pagination_witness:
  "(1::int) \<le> 2 \<and> (1::int) \<le> 3 \<and> (1::int) \<le> 1 \<and>
   map doc (images (get_collection userA 2 1 db_two)) = [image_x\<lparr>likesCount := 1\<rparr>] \<and>
   total (get_collection userA 2 1 db_two) = 2 \<and>
   page (get_collection userA 2 1 db_two) = 2 \<and>
   pages (get_collection userA 2 1 db_two) = Some 2 \<and>
   int (length (uniqueImages userA db_two)) \<le> (3 - 1) * 1 \<and>
   images (get_collection userA 3 1 db_two) = [] \<and>
   total (get_collection userA 3 1 db_two) = 2 \<and>
   page (get_collection userA 3 1 db_two) = 3 \<and>
   pages (get_collection userA 3 1 db_two) = Some 2"
proof -
  have h2: "(1::int) \<le> 2" and h3: "(1::int) \<le> 3" and h1: "(1::int) \<le> 1" by simp_all
  show ?thesis
    using collection_pagination[OF h2 h1, of userA db_two]
      collection_pagination[OF h3 h1, of userA db_two]
    by (simp add: uniqueImages_db_two)
qed

section \<open>The uploads view\<close>

text \<open>
  C4. The uploads view is to annotate an image with \<open>isLiked = true\<close> exactly when the
  requester has a Like record on it. The handler compares the ObjectIds of the
  requester's likes with the id string of the image by \<open>includes\<close>, which never holds:
  in \<open>db_two\<close> user A has a Like on the own image X, and the uploads view answers
  \<open>isLiked = false\<close> for X, while the collection view, which compares strings with
  strings, answers \<open>true\<close> for the same image.
\<close>

theorem uploads_view_own_like_not_reported:
  "findOne (\<lambda>l. userId l = userA \<and> imageId l = imageX) (db_likes db_two) = Some like_ax \<and>
   get_user_images userA 1 20 db_two =
     Inr \<lparr>images = [\<lparr>doc = image_x\<lparr>likesCount := 1\<rparr>, isLiked = False\<rparr>],
          total = 1, page = 1, pages = Some 1\<rparr> \<and>
   images (get_collection userA 1 1 db_two) =
     [\<lparr>doc = image_y\<lparr>likesCount := 1\<rparr>, isLiked = True\<rparr>] \<and>
   images (get_collection userA 2 1 db_two) =
     [\<lparr>doc = image_x\<lparr>likesCount := 1\<rparr>, isLiked = True\<rparr>]"
proof -
  have 1: "findOne (\<lambda>l. userId l = userA \<and> imageId l = imageX) (db_likes db_two) = Some like_ax"
    by (simp add: db_two_eq findOne_def ex_defs)
  have 2: "get_user_images userA 1 20 db_two =
     Inr \<lparr>images = [\<lparr>doc = image_x\<lparr>likesCount := 1\<rparr>, isLiked = False\<rparr>],
          total = 1, page = 1, pages = Some 1\<rparr>"
    by (simp add: get_user_images_def db_two_eq skip_limit_def sort_cmp_def find_docs_def
        countDocuments_def ceil_div_def distinct_imageId_def array_includes_def Let_def ex_defs)
  have l: "distinct_imageId userA (db_likes db_two) = [imageY, imageX]"
    by (simp add: distinct_imageId_def db_two_eq find_docs_def ex_defs)
  have 3: "images (get_collection userA 1 1 db_two) =
     [\<lparr>doc = image_y\<lparr>likesCount := 1\<rparr>, isLiked = True\<rparr>]"
    unfolding get_collection_def uniqueImages_db_two l
    by (simp add: slice_def Let_def ex_defs)
  have 4: "images (get_collection userA 2 1 db_two) =
     [\<lparr>doc = image_x\<lparr>likesCount := 1\<rparr>, isLiked = True\<rparr>]"
    unfolding get_collection_def uniqueImages_db_two l
    by (simp add: slice_def Let_def ex_defs)
  show ?thesis using 1 2 3 4 by simp
qed

text \<open>The uploads view never reports a like.\<close>

lemma get_user_images_never_liked:
  assumes "get_user_images u pg limit d = Inr r" and "x \<in> set (images r)"
  shows "\<not> isLiked x"
proof -
  have "\<not> array_includes (map JObjectId ids) s" for ids s
    by (simp add: array_includes_def list_ex_iff)
  then show ?thesis
    using assms by (auto simp: get_user_images_def Let_def split: sum.splits)
qed

section \<open>Deduplication in the collection view\<close>

lemma map_set_keys:
  "map fst (map_set k v m) = (if k \<in> fst ` set m then map fst m else map fst m @ [k])"
proof (induction m)
  case Nil
  then show ?case by simp
next
  case (Cons p m)
  obtain k' v' where p: "p = (k', v')" by (cases p)
  show ?case
  proof (cases "k' = k")
    case True
    then show ?thesis by (simp add: p)
  next
    case False
    then show ?thesis using Cons by (simp add: p)
  qed
qed

lemma map_set_set:
  "\<forall>v'. (k, v') \<in> set m \<longrightarrow> v' = v \<Longrightarrow> set (map_set k v m) = insert (k, v) (set m)"
proof (induction m)
  case Nil
  then show ?case by simp
next
  case (Cons p m)
  obtain k' v' where p: "p = (k', v')" by (cases p)
  show ?case
  proof (cases "k' = k")
    case True
    then have "v' = v" using Cons.prems by (simp add: p)
    then show ?thesis using True by (simp add: p)
  next
    case False
    have "set (map_set k v m) = insert (k, v) (set m)"
      using Cons by simp
    then show ?thesis using False by (auto simp: p)
  qed
qed

lemma new_Map_aux:
  assumes "distinct (map fst m)"
    and "\<forall>k v v'. (k, v) \<in> set m \<union> set es \<longrightarrow> (k, v') \<in> set m \<union> set es \<longrightarrow> v = v'"
  shows "distinct (map fst (foldl (\<lambda>m (k, v). map_set k v m) m es)) \<and>
         set (foldl (\<lambda>m (k, v). map_set k v m) m es) = set m \<union> set es"
  using assms
proof (induction es arbitrary: m)
  case Nil
  then show ?case by simp
next
  case (Cons e es)
  obtain k v where e: "e = (k, v)" by (cases e)
  have fun_kv: "\<forall>v'. (k, v') \<in> set m \<longrightarrow> v' = v"
    using Cons.prems(2) unfolding e by (meson UnI1 UnI2 list.set_intros(1))
  have s: "set (map_set k v m) = insert (k, v) (set m)"
    by (rule map_set_set[OF fun_kv])
  have d: "distinct (map fst (map_set k v m))"
    using Cons.prems(1) by (simp add: map_set_keys)
  have u: "set (map_set k v m) \<union> set es = set m \<union> set (e # es)"
    unfolding s e by auto
  have f: "\<forall>k' w w'. (k', w) \<in> set (map_set k v m) \<union> set es \<longrightarrow>
             (k', w') \<in> set (map_set k v m) \<union> set es \<longrightarrow> w = w'"
    unfolding u using Cons.prems(2) by blast
  have "foldl (\<lambda>m (k, v). map_set k v m) m (e # es) =
        foldl (\<lambda>m (k, v). map_set k v m) (map_set k v m) es"
    by (simp add: e)
  with Cons.IH[OF d f] u show ?case by simp
qed

lemma new_Map_props:
  assumes "\<forall>k v v'. (k, v) \<in> set es \<longrightarrow> (k, v') \<in> set es \<longrightarrow> v = v'"
  shows "distinct (map fst (new_Map es))" and "set (new_Map es) = set es"
  using new_Map_aux[of "[]" es] assms unfolding new_Map_def by auto

lemma unique_values:
  assumes inj: "inj_on key (set xs)"
  shows "distinct (map key (map_values (new_Map (map (\<lambda>x. (key x, x)) xs))))"
    and "set (map_values (new_Map (map (\<lambda>x. (key x, x)) xs))) = set xs"
proof -
  let ?es = "map (\<lambda>x. (key x, x)) xs"
  have f: "\<forall>k v v'. (k, v) \<in> set ?es \<longrightarrow> (k, v') \<in> set ?es \<longrightarrow> v = v'"
    using inj by (auto dest: inj_onD)
  note p = new_Map_props[OF f]
  have form: "\<forall>e\<in>set (new_Map ?es). fst e = key (snd e)"
    unfolding p(2) by auto
  then have "map fst (new_Map ?es) = map key (map snd (new_Map ?es))"
    by simp
  with p(1) show "distinct (map key (map_values (new_Map ?es)))"
    by (simp add: map_values_def)
  show "set (map_values (new_Map ?es)) = set xs"
    unfolding map_values_def set_map p(2) by force
qed

lemma set_distinct_imageId:
  "set (distinct_imageId u ls) = imageId ` {l \<in> set ls. userId l = u}"
  by (auto simp: distinct_imageId_def find_docs_def)

lemma uniqueImages_props:
  assumes "distinct (map image_id (db_images d))"
  shows "set (uniqueImages u d) = {img \<in> set (db_images d). uploadedBy img = u} \<union>
           {img \<in> set (db_images d). \<exists>l\<in>set (db_likes d). userId l = u \<and> imageId l = image_id img}"
    and "distinct (map image_id (uniqueImages u d))"
    and "sorted_wrt (\<lambda>a b. createdAt b \<le> createdAt a) (uniqueImages u d)"
proof -
  let ?all = "find_docs (\<lambda>img. uploadedBy img = u) (db_images d) @
              find_docs (\<lambda>img. image_id img \<in> set (distinct_imageId u (db_likes d))) (db_images d)"
  let ?key = "\<lambda>img. toString (image_id img)"
  let ?vals = "map_values (new_Map (map (\<lambda>img. (?key img, img)) ?all))"
  have u: "uniqueImages u d = sort_key (\<lambda>x. - createdAt x) ?vals"
    by (simp add: uniqueImages_def Let_def sort_images_desc)
  have sub: "set ?all \<subseteq> set (db_images d)" by (auto simp: find_docs_def)
  have "inj_on image_id (set (db_images d))"
    using assms by (simp add: distinct_map)
  then have "inj_on ?key (set (db_images d))"
    by (auto simp: inj_on_def toString_inject)
  then have inj: "inj_on ?key (set ?all)"
    using sub by (rule inj_on_subset)
  note v = unique_values[OF inj]
  have "image_id img \<in> set (distinct_imageId u (db_likes d)) \<longleftrightarrow>
        (\<exists>l\<in>set (db_likes d). userId l = u \<and> imageId l = image_id img)" for img
    unfolding set_distinct_imageId by force
  then have "set ?all = {img \<in> set (db_images d). uploadedBy img = u} \<union>
           {img \<in> set (db_images d). \<exists>l\<in>set (db_likes d). userId l = u \<and> imageId l = image_id img}"
    by (auto simp: find_docs_def)
  with v(2) show "set (uniqueImages u d) = {img \<in> set (db_images d). uploadedBy img = u} \<union>
           {img \<in> set (db_images d). \<exists>l\<in>set (db_likes d). userId l = u \<and> imageId l = image_id img}"
    by (simp add: u)
  have "distinct (map image_id ?vals)"
    using v(1) by (auto simp: distinct_map inj_on_def toString_inject)
  then have "distinct (map image_id (sort_key (\<lambda>x. - createdAt x) ?vals))"
    by (simp add: distinct_map)
  then show "distinct (map image_id (uniqueImages u d))" by (simp only: u)
  show "sorted_wrt (\<lambda>a b. createdAt b \<le> createdAt a) (uniqueImages u d)"
    unfolding u by (rule sorted_desc_sort_key)
qed

lemma get_collection_docs:
  "map doc (images (get_collection u pg limit d)) =
     slice (uniqueImages u d) ((pg - 1) * limit) ((pg - 1) * limit + limit)"
  by (simp add: get_collection_def Let_def comp_def)

lemma get_collection_isLiked:
  assumes "x \<in> set (images (get_collection u pg limit d))"
  shows "isLiked x \<longleftrightarrow> (\<exists>l\<in>set (db_likes d). userId l = u \<and> imageId l = image_id (doc x))"
proof -
  from assms obtain img where x: "x = \<lparr>doc = img,
      isLiked = list_ex (\<lambda>i. toString i = toString (image_id img)) (distinct_imageId u (db_likes d))\<rparr>"
    by (auto simp: get_collection_def Let_def)
  have "list_ex (\<lambda>i. toString i = toString (image_id img)) (distinct_imageId u (db_likes d)) \<longleftrightarrow>
        image_id img \<in> set (distinct_imageId u (db_likes d))"
    by (auto simp: list_ex_iff toString_inject)
  also have "\<dots> \<longleftrightarrow> (\<exists>l\<in>set (db_likes d). userId l = u \<and> imageId l = image_id img)"
    unfolding set_distinct_imageId by force
  finally show ?thesis by (simp add: x)
qed

text \<open>
  C5. In a reachable state the list of the collection view before paging holds exactly
  the stored images that the user uploaded or liked, each image id once, newest first;
  \<open>total\<close> is the number of images in that union. Every page of the view is a part
  of that list, with no image id twice and newest first: for page \<open>pg \<ge> 1\<close> and limit
  \<open>\<ge> 1\<close> the returned documents are the slice \<open>[(pg-1)*limit, (pg-1)*limit + limit)\<close>
  of the list, and a first page whose limit covers \<open>total\<close> returns the whole list, that
  is, exactly the union. Each returned entry has \<open>isLiked = true\<close> exactly when the
  user has a Like on the image.
\<close>

theorem collection_all_union:
  assumes "reachable d"
  shows "set (uniqueImages u d) = {img \<in> set (db_images d). uploadedBy img = u} \<union>
           {img \<in> set (db_images d). \<exists>l\<in>set (db_likes d). userId l = u \<and> imageId l = image_id img} \<and>
         distinct (map image_id (uniqueImages u d)) \<and>
         sorted_wrt (\<lambda>a b. createdAt b \<le> createdAt a) (uniqueImages u d) \<and>
         total (get_collection u pg limit d) =
           card ({img \<in> set (db_images d). uploadedBy img = u} \<union>
           {img \<in> set (db_images d). \<exists>l\<in>set (db_likes d). userId l = u \<and> imageId l = image_id img}) \<and>
         set (map doc (images (get_collection u pg limit d))) \<subseteq> set (uniqueImages u d) \<and>
         distinct (map (\<lambda>x. image_id (doc x)) (images (get_collection u pg limit d))) \<and>
         sorted_wrt (\<lambda>a b. createdAt (doc b) \<le> createdAt (doc a))
           (images (get_collection u pg limit d)) \<and>
         (1 \<le> pg \<longrightarrow> 1 \<le> limit \<longrightarrow>
            map doc (images (get_collection u pg limit d)) =
              take (nat limit) (drop (nat ((pg - 1) * limit)) (uniqueImages u d))) \<and>
         (int (total (get_collection u 1 limit d)) \<le> limit \<longrightarrow>
            map doc (images (get_collection u 1 limit d)) = uniqueImages u d \<and>
            set (map doc (images (get_collection u 1 limit d))) =
              {img \<in> set (db_images d). uploadedBy img = u} \<union>
              {img \<in> set (db_images d).
                 \<exists>l\<in>set (db_likes d). userId l = u \<and> imageId l = image_id img}) \<and>
         (\<forall>x\<in>set (images (get_collection u pg limit d)).
            isLiked x \<longleftrightarrow>
              (\<exists>l\<in>set (db_likes d). userId l = u \<and> imageId l = image_id (doc x)))"
proof -
  have di: "distinct (map image_id (db_images d))"
    using reachable_db_inv[OF assms] by (simp add: db_inv_def)
  note p = uniqueImages_props[OF di, of u]
  have "distinct (uniqueImages u d)" using p(2) by (simp add: distinct_map)
  then have "card (set (uniqueImages u d)) = length (uniqueImages u d)"
    by (rule distinct_card)
  then have t: "total (get_collection u pg limit d) =
      card ({img \<in> set (db_images d). uploadedBy img = u} \<union>
           {img \<in> set (db_images d). \<exists>l\<in>set (db_likes d). userId l = u \<and> imageId l = image_id img})"
    using p(1) by (simp add: get_collection_def Let_def)
  obtain a b where sl: "slice (uniqueImages u d) ((pg - 1) * limit) ((pg - 1) * limit + limit) =
      take a (drop b (uniqueImages u d))"
    using slice_segment by blast
  have m: "map doc (images (get_collection u pg limit d)) = take a (drop b (uniqueImages u d))"
    by (simp add: get_collection_docs sl)
  have s1: "set (map doc (images (get_collection u pg limit d))) \<subseteq> set (uniqueImages u d)"
    unfolding m by (meson in_set_dropD in_set_takeD subsetI)
  have "distinct (map image_id (take a (drop b (uniqueImages u d))))"
    using p(2) by (simp add: take_map[symmetric] drop_map[symmetric])
  then have s2: "distinct (map (\<lambda>x. image_id (doc x)) (images (get_collection u pg limit d)))"
    using m by (metis (no_types, lifting) map_map comp_def map_eq_conv)
  have "sorted_wrt (\<lambda>a b. createdAt b \<le> createdAt a) (map doc (images (get_collection u pg limit d)))"
    unfolding m using p(3) by simp
  then have s3: "sorted_wrt (\<lambda>a b. createdAt (doc b) \<le> createdAt (doc a))
           (images (get_collection u pg limit d))"
    by (simp add: sorted_wrt_map)
  have s4: "map doc (images (get_collection u pg limit d)) =
              take (nat limit) (drop (nat ((pg - 1) * limit)) (uniqueImages u d))"
    if "1 \<le> pg" and "1 \<le> limit"
  proof -
    have "0 \<le> (pg - 1) * limit" and "0 \<le> limit" using that by simp_all
    then show ?thesis unfolding get_collection_docs by (rule slice_take_drop)
  qed
  have s5: "map doc (images (get_collection u 1 limit d)) = uniqueImages u d"
    if "int (total (get_collection u 1 limit d)) \<le> limit"
  proof -
    have len: "int (length (uniqueImages u d)) \<le> limit"
      using that by (simp add: get_collection_def Let_def)
    then have l0: "0 \<le> limit" by linarith
    have "slice (uniqueImages u d) 0 (0 + limit) = take (nat limit) (drop (nat 0) (uniqueImages u d))"
      by (rule slice_take_drop) (use l0 in simp_all)
    also have "\<dots> = uniqueImages u d" using len by simp
    finally show ?thesis by (simp add: get_collection_docs)
  qed
  have s6: "set (map doc (images (get_collection u 1 limit d))) =
              {img \<in> set (db_images d). uploadedBy img = u} \<union>
              {img \<in> set (db_images d).
                 \<exists>l\<in>set (db_likes d). userId l = u \<and> imageId l = image_id img}"
    if "int (total (get_collection u 1 limit d)) \<le> limit"
    using s5[OF that] p(1) by simp
  have s7: "\<forall>x\<in>set (images (get_collection u pg limit d)).
            isLiked x \<longleftrightarrow>
              (\<exists>l\<in>set (db_likes d). userId l = u \<and> imageId l = image_id (doc x))"
    using get_collection_isLiked by blast
  show ?thesis
    using p t s1 s2 s3 s4 s5 s6 s7 by (intro conjI impI) assumption+
qed

theorem collection_all_union_witness:
  "reachable db_two \<and> (1::int) \<le> 1 \<and> (1::int) \<le> 20 \<and>
   int (total (get_collection userA 1 20 db_two)) \<le> 20 \<and>
   uniqueImages userA db_two = [image_y\<lparr>likesCount := 1\<rparr>, image_x\<lparr>likesCount := 1\<rparr>] \<and>
   map doc (images (get_collection userA 1 20 db_two)) =
     [image_y\<lparr>likesCount := 1\<rparr>, image_x\<lparr>likesCount := 1\<rparr>] \<and>
   set (map doc (images (get_collection userA 1 20 db_two))) =
     {img \<in> set (db_images db_two). uploadedBy img = userA} \<union>
     {img \<in> set (db_images db_two).
        \<exists>l\<in>set (db_likes db_two). userId l = userA \<and> imageId l = image_id img} \<and>
   total (get_collection userA 1 20 db_two) = 2 \<and>
   card ({img \<in> set (db_images db_two). uploadedBy img = userA} \<union>
         {img \<in> set (db_images db_two).
            \<exists>l\<in>set (db_likes db_two). userId l = userA \<and> imageId l = image_id img}) = 2 \<and>
   distinct (map (\<lambda>x. image_id (doc x)) (images (get_collection userA 1 20 db_two)))"
proof -
  have t: "total (get_collection userA 1 20 db_two) = 2"
    unfolding get_collection_def uniqueImages_db_two by (simp add: Let_def)
  have h: "int (total (get_collection userA 1 20 db_two)) \<le> 20"
    by (simp add: t)
  note c = collection_all_union[OF reachable_db_two, of userA 1 20]
  from c h have m: "map doc (images (get_collection userA 1 20 db_two)) = uniqueImages userA db_two"
    and s: "set (map doc (images (get_collection userA 1 20 db_two))) =
     {img \<in> set (db_images db_two). uploadedBy img = userA} \<union>
     {img \<in> set (db_images db_two).
        \<exists>l\<in>set (db_likes db_two). userId l = userA \<and> imageId l = image_id img}"
    by blast+
  from c have k: "total (get_collection userA 1 20 db_two) =
       card ({img \<in> set (db_images db_two). uploadedBy img = userA} \<union>
         {img \<in> set (db_images db_two).
            \<exists>l\<in>set (db_likes db_two). userId l = userA \<and> imageId l = image_id img})"
    and dd: "distinct (map (\<lambda>x. image_id (doc x)) (images (get_collection userA 1 20 db_two)))"
    by blast+
  have n: "(1::int) \<le> 1" "(1::int) \<le> 20" by simp_all
  show ?thesis
    using reachable_db_two n h uniqueImages_db_two m[unfolded uniqueImages_db_two] s t
      k[unfolded t, symmetric] dd
    by (intro conjI) assumption+
qed

section \<open>The liked view\<close>

lemma skip_limit_page:
  assumes "1 \<le> pg" and "1 \<le> limit"
  shows "skip_limit ((pg - 1) * limit) limit xs =
           Inr (take (nat limit) (drop (nat ((pg - 1) * limit)) xs))"
proof -
  have "0 \<le> (pg - 1) * limit" using assms by simp
  then have "\<not> (pg - 1) * limit < 0" by (simp only: not_less)
  moreover have "limit \<noteq> 0" and "\<bar>limit\<bar> = limit" using assms by simp_all
  ultimately show ?thesis unfolding skip_limit_def by (simp only: if_False)
qed

lemma map_map_filter_id:
  "\<forall>x\<in>set xs. \<exists>y. f x = Some y \<and> g y = x \<Longrightarrow> map g (List.map_filter f xs) = xs"
  by (induction xs) (auto simp: List.map_filter_simps)

lemma distinct_imageId_of_user:
  assumes "distinct (map (\<lambda>l. (userId l, imageId l)) ls)"
  shows "distinct (map imageId (filter (\<lambda>l. userId l = u) ls))"
proof -
  have "distinct (map (\<lambda>l. (userId l, imageId l)) (filter (\<lambda>l. userId l = u) ls))"
    using assms by (rule distinct_map_filter)
  moreover have "map (\<lambda>l. (userId l, imageId l)) (filter (\<lambda>l. userId l = u) ls) =
                 map (Pair u) (map imageId (filter (\<lambda>l. userId l = u) ls))"
    by simp
  ultimately show ?thesis
    by (metis distinct_map)
qed

text \<open>
  C7. In a reachable state, with page \<open>pg \<ge> 1\<close> and limit \<open>\<ge> 1\<close>, the liked view
  answers the page of the user's likes ordered by the creation time of the Like records,
  newest first: the image ids of the answer are that slice of the liked image ids, each
  liked image occurs once in the order, every entry is a stored image with
  \<open>isLiked = true\<close>, and \<open>total\<close> is the number of the user's likes.
\<close>

theorem liked_view:
  assumes "reachable d" and "1 \<le> pg" and "1 \<le> limit"
  shows "\<exists>r ls. get_liked u pg limit d = Inr r \<and>
           mset ls = mset (filter (\<lambda>l. userId l = u) (db_likes d)) \<and>
           sorted_wrt (\<lambda>a b. like_createdAt b \<le> like_createdAt a) ls \<and>
           distinct (map imageId ls) \<and>
           map (\<lambda>x. image_id (doc x)) (images r) =
             take (nat limit) (drop (nat ((pg - 1) * limit)) (map imageId ls)) \<and>
           (\<forall>x\<in>set (images r). isLiked x \<and> doc x \<in> set (db_images d)) \<and>
           total r = length ls \<and> page r = pg"
proof -
  let ?mine = "filter (\<lambda>l. userId l = u) (db_likes d)"
  let ?ls = "sort_key (\<lambda>l. - like_createdAt l) ?mine"
  let ?page = "take (nat limit) (drop (nat ((pg - 1) * limit)) ?ls)"
  let ?ids = "map imageId ?page"
  let ?imgs = "find_docs (\<lambda>img. image_id img \<in> set ?ids) (db_images d)"
  let ?key = "\<lambda>img. toString (image_id img)"
  let ?m = "fold (\<lambda>img m. m(?key img \<mapsto> img)) ?imgs Map.empty"
  let ?r = "\<lparr>images = map (\<lambda>img. \<lparr>doc = img, isLiked = True\<rparr>)
                          (List.map_filter (\<lambda>i. ?m (toString i)) ?ids),
             total = countDocuments (\<lambda>l. userId l = u) (db_likes d), page = pg,
             pages = ceil_div (countDocuments (\<lambda>l. userId l = u) (db_likes d)) limit\<rparr>"
  have inv: "db_inv d" by (rule reachable_db_inv[OF assms(1)])
  have r: "get_liked u pg limit d = Inr ?r"
    by (simp add: get_liked_def Let_def sort_likes_desc find_docs_def
        skip_limit_page[OF assms(2,3)])
  have dk: "distinct (map ?key ?imgs)"
  proof -
    have "distinct (map image_id ?imgs)"
      using inv by (simp add: db_inv_def find_docs_def distinct_map_filter)
    then show ?thesis
      by (auto simp: distinct_map inj_on_def toString_inject)
  qed
  have look: "\<exists>img. ?m (toString j) = Some img \<and> image_id img = j" if "j \<in> set ?ids" for j
  proof -
    from that obtain l where "l \<in> set ?page" "imageId l = j" by auto
    then have "l \<in> set (db_likes d)"
      by (auto dest!: in_set_takeD in_set_dropD)
    then obtain img where "img \<in> set (db_images d)" "image_id img = j"
      using inv \<open>imageId l = j\<close> by (auto simp: db_inv_def)
    then have "img \<in> set ?imgs" using that by (simp add: find_docs_def)
    from imageMap_lookup[OF dk this, of Map.empty] \<open>image_id img = j\<close>
    show ?thesis by auto
  qed
  have ids: "map image_id (List.map_filter (\<lambda>i. ?m (toString i)) ?ids) = ?ids"
    by (rule map_map_filter_id) (use look in blast)
  have 1: "mset ?ls = mset ?mine" by simp
  have 2: "sorted_wrt (\<lambda>a b. like_createdAt b \<le> like_createdAt a) ?ls"
    by (rule sorted_desc_sort_key)
  have 3: "distinct (map imageId ?ls)"
  proof -
    have "distinct (map imageId ?mine)"
      using inv by (intro distinct_imageId_of_user) (simp add: db_inv_def)
    then show ?thesis by (simp add: distinct_map)
  qed
  have 4: "map (\<lambda>x. image_id (doc x)) (images ?r) =
           take (nat limit) (drop (nat ((pg - 1) * limit)) (map imageId ?ls))"
    using ids by (simp add: comp_def take_map drop_map)
  have 5: "\<forall>x\<in>set (images ?r). isLiked x \<and> doc x \<in> set (db_images d)"
    using get_liked_entries[OF r] by blast
  have 6: "total ?r = length ?ls" by (simp add: countDocuments_def)
  show ?thesis
    using r 1 2 3 4 5 6
    by (intro exI[of _ ?r] exI[of _ ?ls]) simp
qed

theorem liked_view_witness:
  "reachable db_two \<and> (1::int) \<le> 1 \<and> (1::int) \<le> 20 \<and>
   get_liked userA 1 20 db_two =
     Inr \<lparr>images = [\<lparr>doc = image_x\<lparr>likesCount := 1\<rparr>, isLiked = True\<rparr>,
                     \<lparr>doc = image_y\<lparr>likesCount := 1\<rparr>, isLiked = True\<rparr>],
          total = 2, page = 1, pages = Some 1\<rparr> \<and>
   (\<exists>ls. mset ls = mset (filter (\<lambda>l. userId l = userA) (db_likes db_two)) \<and>
      sorted_wrt (\<lambda>a b. like_createdAt b \<le> like_createdAt a) ls \<and>
      [imageX, imageY] = take (nat 20) (drop (nat ((1 - 1) * 20)) (map imageId ls)))"
proof -
  have h2: "(1::int) \<le> 1" and h3: "(1::int) \<le> 20" by simp_all
  have g: "get_liked userA 1 20 db_two =
     Inr \<lparr>images = [\<lparr>doc = image_x\<lparr>likesCount := 1\<rparr>, isLiked = True\<rparr>,
                     \<lparr>doc = image_y\<lparr>likesCount := 1\<rparr>, isLiked = True\<rparr>],
          total = 2, page = 1, pages = Some 1\<rparr>"
    by (simp add: get_liked_def db_two_eq skip_limit_def sort_cmp_def find_docs_def
        countDocuments_def ceil_div_def by_like_createdAt_desc_def
        Let_def ex_defs)
  have i: "image_id (image_x\<lparr>likesCount := 1\<rparr>) = imageX" "image_id (image_y\<lparr>likesCount := 1\<rparr>) = imageY"
    by (simp_all add: image_x_def image_y_def)
  from liked_view[OF reachable_db_two h2 h3, of userA]
  obtain r ls where r: "get_liked userA 1 20 db_two = Inr r"
    and ls: "mset ls = mset (filter (\<lambda>l. userId l = userA) (db_likes db_two))"
      "sorted_wrt (\<lambda>a b. like_createdAt b \<le> like_createdAt a) ls"
      "map (\<lambda>x. image_id (doc x)) (images r) =
         take (nat 20) (drop (nat ((1 - 1) * 20)) (map imageId ls))"
    by blast
  from r g have "r = \<lparr>images = [\<lparr>doc = image_x\<lparr>likesCount := 1\<rparr>, isLiked = True\<rparr>,
                     \<lparr>doc = image_y\<lparr>likesCount := 1\<rparr>, isLiked = True\<rparr>],
          total = 2, page = 1, pages = Some 1\<rparr>"
    by simp
  then have "images r = [\<lparr>doc = image_x\<lparr>likesCount := 1\<rparr>, isLiked = True\<rparr>,
                     \<lparr>doc = image_y\<lparr>likesCount := 1\<rparr>, isLiked = True\<rparr>]"
    by simp
  with ls(3) i have "[imageX, imageY] = take (nat 20) (drop (nat ((1 - 1) * 20)) (map imageId ls))"
    by simp
  with ls(1,2) g reachable_db_two h2 h3 show ?thesis by blast
qed

end
